theory Spec2Isabelle
  imports Main "HOL-Library.AList" "HOL-Library.Char_ord" "HOL-Library.List_Lexorder"
    "HOL-Library.Product_Lexorder"
begin

section \<open>The CustomTokenizer of src/lib/tokenizer.js\<close>

text \<open>
  A shallow embedding of the class \<open>CustomTokenizer\<close>. A JavaScript string is modelled
  as a list of characters, one list element per code point, over the type \<^typ>\<open>char\<close>
  (so the strings covered are those whose code points fit one code unit, where iterating
  a string, \<open>Array.from\<close> and the regular expressions of the source all see the same
  elements). A JavaScript \<open>Map\<close> is an association list in insertion order:
  \<open>get\<close> is \<^const>\<open>map_of\<close>, \<open>set\<close> is \<^const>\<open>AList.update\<close> (the value of
  an existing key is replaced in place, a new key is appended), \<open>size\<close> is
  \<^const>\<open>length\<close> (the lists are only built by \<open>set\<close>, so keys are distinct).
\<close>

subsection \<open>Values, errors and the state of an instance\<close>

type_synonym ('k, 'v) jsmap = "('k \<times> 'v) list"

text \<open>The values a caller can pass where the source expects a string.\<close>

datatype jsval = JUndefined | JNull | JString string

text \<open>
  \<open>TypeError\<close>: a method call on \<open>null\<close> or \<open>undefined\<close>.
  \<open>NotAString\<close>: \<open>bestPair[0] + bestPair[1]\<close> with a missing component is not a
  string of the model; evaluation stops there.
\<close>

datatype error = TypeError | NotAString

record tokenizer =
  vocab :: "(string, nat) jsmap"
  merges :: "string list list"
  specialTokens :: "(string, nat) jsmap"
  decoder :: "(nat, string) jsmap"

subsection \<open>Construction\<close>

definition specials :: "string list" where
  "specials = [''<|endoftext|>'', ''<|startoftext|>'', ''<|unknown|>'', ''<|space|>'']"

text \<open>\<open>specials.forEach((token, idx) => ...)\<close>, from index \<open>idx\<close> on.\<close>

fun registerSpecials :: "tokenizer \<Rightarrow> nat \<Rightarrow> string list \<Rightarrow> tokenizer" where
  "registerSpecials t idx [] = t"
| "registerSpecials t idx (token # rest) =
     registerSpecials
       (t\<lparr>specialTokens := AList.update token idx (specialTokens t),
          decoder := AList.update idx token (decoder t)\<rparr>)
       (Suc idx) rest"

definition initializeSpecialTokens :: "tokenizer \<Rightarrow> tokenizer" where
  "initializeSpecialTokens t = registerSpecials t 0 specials"

definition newTokenizer :: tokenizer where
  "newTokenizer =
     initializeSpecialTokens \<lparr>vocab = [], merges = [], specialTokens = [], decoder = []\<rparr>"

subsection \<open>String primitives of JavaScript used by the source\<close>

text \<open>The characters matched by \<open>\s\<close> and removed by \<open>trim\<close>, among one-byte code points.\<close>

definition isSpace :: "char \<Rightarrow> bool" where
  "isSpace c = (c \<in> set [CHR 0x09, CHR 0x0A, CHR 0x0B, CHR 0x0C, CHR 0x0D, CHR 0x20, CHR 0xA0])"

text \<open>\<open>s.replace(/\s+/g, ' ')\<close>: every maximal run of white space becomes one space.\<close>

function collapseSpaces :: "string \<Rightarrow> string" where
  "collapseSpaces [] = []"
| "collapseSpaces (c # cs) =
     (if isSpace c then CHR 0x20 # collapseSpaces (dropWhile isSpace cs)
      else c # collapseSpaces cs)"
  by pat_completeness auto
termination
  by (relation "measure length") (auto simp: length_dropWhile_le less_Suc_eq_le)

text \<open>
  \<open>s.split(sep)\<close> for a string separator: the pieces between the leftmost,
  non-overlapping occurrences of \<open>sep\<close>; \<open>piece\<close> is the piece being read. An empty
  separator splits a string into its characters.
\<close>

function splitFrom :: "string \<Rightarrow> string \<Rightarrow> string \<Rightarrow> string list" where
  "splitFrom sep piece [] = [piece]"
| "splitFrom sep piece (c # cs) =
     (if sep \<noteq> [] \<and> take (length sep) (c # cs) = sep
      then piece # splitFrom sep [] (drop (length sep) (c # cs))
      else splitFrom sep (piece @ [c]) cs)"
  by pat_completeness auto
termination
  by (relation "measure (\<lambda>(sep, piece, s). length s)") auto

definition split :: "string \<Rightarrow> string \<Rightarrow> string list" where
  "split s sep = (if sep = [] then map (\<lambda>c. [c]) s else splitFrom sep [] s)"

definition trim :: "string \<Rightarrow> string" where
  "trim s = rev (dropWhile isSpace (rev (dropWhile isSpace s)))"

text \<open>
  The replacement text of \<open>String.prototype.replace\<close> for one match of a pattern without
  capture groups: in the replacement string, \<open>$$\<close> stands for a dollar sign, \<open>$&\<close> for
  the matched text, \<open>$`\<close> for the text before the match and \<open>$'\<close> for the text after
  it; any other character, and a dollar sign before any other character, stands for
  itself.
\<close>

fun getSubstitution :: "string \<Rightarrow> string \<Rightarrow> string \<Rightarrow> string \<Rightarrow> string" where
  "getSubstitution matched preceding following [] = []"
| "getSubstitution matched preceding following [c] = [c]"
| "getSubstitution matched preceding following (c # d # rest) =
     (if c = CHR 0x24 \<and> d = CHR 0x24 then CHR 0x24 # getSubstitution matched preceding following rest
      else if c = CHR 0x24 \<and> d = CHR 0x26 then matched @ getSubstitution matched preceding following rest
      else if c = CHR 0x24 \<and> d = CHR 0x60 then preceding @ getSubstitution matched preceding following rest
      else if c = CHR 0x24 \<and> d = CHR 0x27 then following @ getSubstitution matched preceding following rest
      else c # getSubstitution matched preceding following (d # rest))"

text \<open>
  \<open>s.replace(new RegExp(p, 'g'), replacement)\<close> where the pattern \<open>p\<close> matches exactly the
  text \<open>pat\<close>: the matches are found left to right, each search starting where the last
  match ended; \<open>preceding\<close> is the part of the string already read. The empty pattern
  matches before every character and at the end.
\<close>

function replaceAllFrom :: "string \<Rightarrow> string \<Rightarrow> string \<Rightarrow> string \<Rightarrow> string" where
  "replaceAllFrom pat replacement preceding [] =
     (if pat = [] then getSubstitution [] preceding [] replacement else [])"
| "replaceAllFrom pat replacement preceding (c # cs) =
     (if pat = [] then
        getSubstitution [] preceding (c # cs) replacement
          @ c # replaceAllFrom pat replacement (preceding @ [c]) cs
      else if take (length pat) (c # cs) = pat then
        getSubstitution pat preceding (drop (length pat) (c # cs)) replacement
          @ replaceAllFrom pat replacement (preceding @ pat) (drop (length pat) (c # cs))
      else c # replaceAllFrom pat replacement (preceding @ [c]) cs)"
  by pat_completeness auto
termination
  by (relation "measure (\<lambda>(pat, replacement, preceding, s). length s)") auto

subsection \<open>Regular expressions built by mergePair\<close>

text \<open>The characters of the class \<open>[.*+?^${}()|[\]\\]\<close>.\<close>

definition regExpSpecial :: "char \<Rightarrow> bool" where
  "regExpSpecial c =
     (c \<in> set [CHR 0x2E, CHR 0x2A, CHR 0x2B, CHR 0x3F, CHR 0x5E, CHR 0x24, CHR 0x7B, CHR 0x7D,
                CHR 0x28, CHR 0x29, CHR 0x7C, CHR 0x5B, CHR 0x5D, CHR 0x5C])"

text \<open>\<open>string.replace(/[.*+?^${}()|[\]\\]/g, '\\$&')\<close>: a backslash before each of them.\<close>

fun escapeRegExp :: "string \<Rightarrow> string" where
  "escapeRegExp [] = []"
| "escapeRegExp (c # cs) =
     (if regExpSpecial c then CHR 0x5C # c # escapeRegExp cs else c # escapeRegExp cs)"

text \<open>
  The text matched by a pattern source made of ordinary characters and of characters
  escaped by a backslash, which is what \<open>escapeRegExp\<close> produces: an escaped character
  matches itself.
\<close>

fun regExpText :: "string \<Rightarrow> string" where
  "regExpText [] = []"
| "regExpText [c] = [c]"
| "regExpText (c # d # rest) =
     (if c = CHR 0x5C then d # regExpText rest else c # regExpText (d # rest))"

subsection \<open>Training\<close>

text \<open>\<open>new Set(s)\<close> read back by \<open>Array.from\<close>: the characters in order of first occurrence.\<close>

fun setAdd :: "'a list \<Rightarrow> 'a \<Rightarrow> 'a list" where
  "setAdd seen c = (if c \<in> set seen then seen else seen @ [c])"

definition newSet :: "'a list \<Rightarrow> 'a list" where
  "newSet s = foldl setAdd [] s"

text \<open>The literal \<open>' \n\t!@#$%^&*()[]{}'\<close>.\<close>

definition seedChars :: string where
  "seedChars =
     [CHR 0x20, CHR 0x0A, CHR 0x09, CHR 0x21, CHR 0x40, CHR 0x23, CHR 0x24, CHR 0x25, CHR 0x5E,
      CHR 0x26, CHR 0x2A, CHR 0x28, CHR 0x29, CHR 0x5B, CHR 0x5D, CHR 0x7B, CHR 0x7D]"

text \<open>String concatenation \<open>text + '...'\<close> converts \<open>text\<close> to a string first.\<close>

fun toString :: "jsval \<Rightarrow> string" where
  "toString JUndefined = ''undefined''"
| "toString JNull = ''null''"
| "toString (JString s) = s"

text \<open>\<open>chars.forEach((char, idx) => ...)\<close>, from index \<open>idx\<close> on.\<close>

fun seedAlphabet :: "tokenizer \<Rightarrow> nat \<Rightarrow> string \<Rightarrow> tokenizer" where
  "seedAlphabet t idx [] = t"
| "seedAlphabet t idx (c # cs) =
     (let tokenId = length (specialTokens t) + idx
      in seedAlphabet
           (t\<lparr>vocab := AList.update [c] tokenId (vocab t),
              decoder := AList.update tokenId [c] (decoder t)\<rparr>)
           (Suc idx) cs)"

text \<open>
  \<open>preprocessText\<close>: the method calls \<open>text.replace\<close>, which raises a TypeError when
  \<open>text\<close> is \<open>null\<close> or \<open>undefined\<close>.
\<close>

fun preprocessText :: "jsval \<Rightarrow> error + string list" where
  "preprocessText (JString s) =
     Inr (filter (\<lambda>word. length (trim word) > 0) (split (collapseSpaces s) '' ''))"
| "preprocessText _ = Inl TypeError"

text \<open>
  \<open>getPairs\<close>: the inner loop over one word, whose characters are \<open>Array.from(word)\<close>;
  \<open>(pairs.get(pair) || 0) + 1\<close> is the count so far plus one.
\<close>

definition countPair :: "(string, nat) jsmap \<Rightarrow> string \<Rightarrow> (string, nat) jsmap" where
  "countPair pairs pair =
     AList.update pair ((case map_of pairs pair of None \<Rightarrow> 0 | Some n \<Rightarrow> n) + 1) pairs"

fun wordPairs :: "(string, nat) jsmap \<Rightarrow> string \<Rightarrow> (string, nat) jsmap" where
  "wordPairs pairs (c # d # cs) = wordPairs (countPair pairs ([c] @ ''|||'' @ [d])) (d # cs)"
| "wordPairs pairs cs = pairs"

definition getPairs :: "string list \<Rightarrow> (string, nat) jsmap" where
  "getPairs words = foldl wordPairs [] words"

text \<open>
  \<open>getBestPair\<close>: the loop over the entries of the map in insertion order keeps the
  first entry whose count exceeds every count before it.
\<close>

fun bestPairStep :: "string list option \<times> nat \<Rightarrow> string \<times> nat \<Rightarrow> string list option \<times> nat" where
  "bestPairStep (bestPair, maxCount) (pair, count) =
     (if count > maxCount then (Some (split pair ''|||''), count) else (bestPair, maxCount))"

definition getBestPair :: "(string, nat) jsmap \<Rightarrow> string list option" where
  "getBestPair pairs =
     (if length pairs = 0 then None else fst (foldl bestPairStep (None, 0) pairs))"

text \<open>
  \<open>mergePair\<close>: \<open>const [first, second] = pair\<close> leaves a missing component
  \<open>undefined\<close>, and \<open>escapeRegExp(undefined)\<close> raises a TypeError in the first round
  of the loop over the words.
\<close>

definition mergeWord :: "string \<Rightarrow> string \<Rightarrow> string \<Rightarrow> string" where
  "mergeWord first second word =
     replaceAllFrom (regExpText (escapeRegExp first @ escapeRegExp second)) (first @ second) [] word"

fun mergePair :: "string list \<Rightarrow> string list \<Rightarrow> error + string list" where
  "mergePair [] pair = Inr []"
| "mergePair words (first # second # others) = Inr (map (mergeWord first second) words)"
| "mergePair words pair = Inl TypeError"

text \<open>\<open>bestPair[0] + bestPair[1]\<close>.\<close>

fun pairToken :: "string list \<Rightarrow> error + string" where
  "pairToken (first # second # others) = Inr (first @ second)"
| "pairToken pair = Inl NotAString"

text \<open>
  The loop \<open>for (let i = 0; i < Math.min(2000, vocabSize - this.vocab.size); i++)\<close>,
  from the test of its condition with counter \<open>i\<close>.
\<close>

function trainLoop :: "int \<Rightarrow> nat \<Rightarrow> string list \<Rightarrow> tokenizer \<Rightarrow> error + tokenizer" where
  "trainLoop vocabSize i words t =
     (if int i < min 2000 (vocabSize - int (length (vocab t))) then
        (let pairs = getPairs words in
         if length pairs = 0 then Inr t
         else case getBestPair pairs of
           None \<Rightarrow> Inr t
         | Some bestPair \<Rightarrow>
             (case mergePair words bestPair of
                Inl e \<Rightarrow> Inl e
              | Inr words' \<Rightarrow>
                  (case pairToken bestPair of
                     Inl e \<Rightarrow> Inl e
                   | Inr newToken \<Rightarrow>
                       (let tokenId = length (vocab t)
                        in trainLoop vocabSize (Suc i) words'
                             (t\<lparr>merges := merges t @ [bestPair],
                                vocab := AList.update newToken tokenId (vocab t),
                                decoder := AList.update tokenId newToken (decoder t)\<rparr>)))))
      else Inr t)"
  by pat_completeness auto
termination
  by (relation "measure (\<lambda>(vocabSize, i, words, t). 2000 - i)") auto

definition trainFromText :: "tokenizer \<Rightarrow> jsval \<Rightarrow> int \<Rightarrow> error + tokenizer" where
  "trainFromText t text vocabSize =
     (let chars = newSet (toString text @ seedChars);
          t1 = seedAlphabet t 0 chars
      in case preprocessText text of
           Inl e \<Rightarrow> Inl e
         | Inr words \<Rightarrow> trainLoop vocabSize 0 words t1)"

subsection \<open>Encoding, decoding and introspection\<close>

text \<open>\<open>a || b\<close> on numbers and on strings: \<open>undefined\<close>, \<open>0\<close> and \<open>''\<close> are falsy.\<close>

definition orNat :: "nat option \<Rightarrow> nat \<Rightarrow> nat" where
  "orNat a b = (case a of None \<Rightarrow> b | Some n \<Rightarrow> if n = 0 then b else n)"

definition orString :: "string option \<Rightarrow> string \<Rightarrow> string" where
  "orString a b = (case a of None \<Rightarrow> b | Some s \<Rightarrow> if s = [] then b else s)"

definition encodeChar :: "tokenizer \<Rightarrow> char \<Rightarrow> nat" where
  "encodeChar t c =
     orNat (map_of (vocab t) [c]) (orNat (map_of (specialTokens t) ''<|unknown|>'') 2)"

text \<open>\<open>encode\<close> of a string; \<open>!text\<close> holds for the empty string.\<close>

definition encode :: "tokenizer \<Rightarrow> string \<Rightarrow> nat list" where
  "encode t text = (if text = [] then [] else map (encodeChar t) text)"

definition getTokenText :: "tokenizer \<Rightarrow> nat \<Rightarrow> string" where
  "getTokenText t tokenId = orString (map_of (decoder t) tokenId) ''<|unknown|>''"

text \<open>\<open>decode\<close> of an array of ids.\<close>

definition decode :: "tokenizer \<Rightarrow> nat list \<Rightarrow> string" where
  "decode t tokens = concat (map (\<lambda>token. orString (map_of (decoder t) token) ''<|unknown|>'') tokens)"

definition getVocabSize :: "tokenizer \<Rightarrow> nat" where
  "getVocabSize t = length (vocab t)"

subsection \<open>Notions used to state the properties\<close>

text \<open>The keys that \<open>getPairs\<close> builds: a character, the separator \<open>|||\<close>, a character.\<close>

definition isPairKey :: "string \<Rightarrow> bool" where
  "isPairKey k = (length k = 5 \<and> take 3 (tl k) = ''|||'')"

text \<open>The adjacent pairs of characters of a word, left to right, as keys.\<close>

fun adjacentKeys :: "string \<Rightarrow> string list" where
  "adjacentKeys (c # d # cs) = ([c] @ ''|||'' @ [d]) # adjacentKeys (d # cs)"
| "adjacentKeys cs = []"

text \<open>The state after one more round of the loop that merges \<open>bestPair\<close> into \<open>newToken\<close>.\<close>

abbreviation recordMerge :: "tokenizer \<Rightarrow> string list \<Rightarrow> string \<Rightarrow> tokenizer" where
  "recordMerge t bestPair newToken \<equiv>
     t\<lparr>merges := merges t @ [bestPair],
       vocab := AList.update newToken (length (vocab t)) (vocab t),
       decoder := AList.update (length (vocab t)) newToken (decoder t)\<rparr>"

section \<open>Properties\<close>

declare trainLoop.simps [simp del]

subsection \<open>Pair keys and the best pair\<close>

lemma isPairKey_form:
  assumes "isPairKey k"
  shows "\<exists>c d. k = [c] @ ''|||'' @ [d]"
proof -
  from assms have l: "length k = 5" by (simp add: isPairKey_def)
  then obtain c k1 where k: "k = c # k1" by (cases k) auto
  with l obtain p1 k2 where k1: "k1 = p1 # k2" by (cases k1) auto
  with k l obtain p2 k3 where k2: "k2 = p2 # k3" by (cases k2) auto
  with k k1 l obtain p3 k4 where k3: "k3 = p3 # k4" by (cases k3) auto
  with k k1 k2 l obtain d k5 where k4: "k4 = d # k5" by (cases k4) auto
  with k k1 k2 k3 l have k5: "k5 = []" by simp
  from assms k k1 k2 k3 k4 k5 show ?thesis by (simp add: isPairKey_def)
qed

lemma split_pairKey:
  "split ([c] @ ''|||'' @ [d]) ''|||'' =
     (if c = CHR ''|'' then [[], [CHR ''|'', d]] else [[c], [d]])"
  by (simp add: split_def)

lemma split_isPairKey:
  assumes "isPairKey k"
  shows "\<exists>f s. split k ''|||'' = [f, s] \<and> length (f @ s) = 2"
proof -
  from isPairKey_form[OF assms] obtain c d where "k = [c] @ ''|||'' @ [d]" by blast
  then show ?thesis by (simp only: split_pairKey) simp
qed

lemma keys_countPair: "fst ` set (countPair pairs k) = insert k (fst ` set pairs)"
  by (simp add: countPair_def dom_update)

lemma wordPairs_adjacentKeys: "wordPairs pairs w = foldl countPair pairs (adjacentKeys w)"
  by (induction pairs w rule: wordPairs.induct) simp_all

lemma foldl_wordPairs_adjacentKeys:
  "foldl wordPairs pairs ws = foldl countPair pairs (concat (map adjacentKeys ws))"
  by (induction ws arbitrary: pairs) (simp_all add: wordPairs_adjacentKeys)

lemma getPairs_adjacentKeys: "getPairs ws = foldl countPair [] (concat (map adjacentKeys ws))"
  by (simp add: getPairs_def foldl_wordPairs_adjacentKeys)

lemma isPairKey_adjacentKeys: "k \<in> set (adjacentKeys w) \<Longrightarrow> isPairKey k"
  by (induction w rule: adjacentKeys.induct) (auto simp: isPairKey_def)

lemma keys_foldl_countPair: "fst ` set (foldl countPair pairs ks) = fst ` set pairs \<union> set ks"
  by (induction ks arbitrary: pairs) (auto simp: keys_countPair)

lemma keys_getPairs: "fst ` set (getPairs ws) = (\<Union>w \<in> set ws. set (adjacentKeys w))"
  by (simp add: getPairs_adjacentKeys keys_foldl_countPair)

lemma isPairKey_getPairs: "(k, n) \<in> set (getPairs ws) \<Longrightarrow> isPairKey k"
proof -
  assume "(k, n) \<in> set (getPairs ws)"
  then have "k \<in> fst ` set (getPairs ws)" by force
  then show ?thesis by (auto simp: keys_getPairs isPairKey_adjacentKeys)
qed

lemma set_update_subset: "set (AList.update k v al) \<subseteq> insert (k, v) (set al)"
  by (induction al) auto

lemma length_update:
  "length (AList.update k v al) = (if k \<in> fst ` set al then length al else Suc (length al))"
  by (induction al) auto

lemma counts_countPair:
  "(\<And>k n. (k, n) \<in> set pairs \<Longrightarrow> 0 < n) \<Longrightarrow> (k, n) \<in> set (countPair pairs key) \<Longrightarrow> 0 < n"
  using set_update_subset[of key _ pairs] by (auto simp: countPair_def)

lemma counts_foldl_countPair:
  "(\<And>k n. (k, n) \<in> set pairs \<Longrightarrow> 0 < n) \<Longrightarrow> (k, n) \<in> set (foldl countPair pairs ks) \<Longrightarrow> 0 < n"
proof (induction ks arbitrary: pairs)
  case Nil then show ?case by simp
next
  case (Cons key ks)
  show ?case
  proof (rule Cons.IH)
    fix k' n' assume "(k', n') \<in> set (countPair pairs key)"
    then show "0 < n'" using Cons.prems(1) counts_countPair by blast
  next
    show "(k, n) \<in> set (foldl countPair (countPair pairs key) ks)" using Cons.prems(2) by simp
  qed
qed

lemma counts_getPairs: "(k, n) \<in> set (getPairs ws) \<Longrightarrow> 0 < n"
  unfolding getPairs_adjacentKeys by (rule counts_foldl_countPair[of "[]"]) auto

lemma foldl_bestPairStep:
  "foldl bestPairStep (b, m) pairs = (b', m') \<Longrightarrow>
     (\<forall>p \<in> set pairs. snd p \<le> m') \<and> m \<le> m' \<and>
     ((b' = b \<and> m' = m) \<or>
      (\<exists>i<length pairs. b' = Some (split (fst (pairs ! i)) ''|||'') \<and> snd (pairs ! i) = m' \<and>
          m < m' \<and> (\<forall>j<i. snd (pairs ! j) < m')))"
proof (induction pairs arbitrary: b m)
  case Nil
  then show ?case by simp
next
  case (Cons p ps)
  obtain k c where p: "p = (k, c)" by (cases p)
  show ?case
  proof (cases "c > m")
    case True
    with Cons.prems p have f: "foldl bestPairStep (Some (split k ''|||''), c) ps = (b', m')" by simp
    from Cons.IH[OF f] have all: "\<forall>q\<in>set ps. snd q \<le> m'" and le: "c \<le> m'"
      and dis: "(b' = Some (split k ''|||'') \<and> m' = c) \<or>
        (\<exists>i<length ps. b' = Some (split (fst (ps ! i)) ''|||'') \<and> snd (ps ! i) = m' \<and>
          c < m' \<and> (\<forall>j<i. snd (ps ! j) < m'))" by auto
    from dis have "\<exists>i<length (p # ps). b' = Some (split (fst ((p # ps) ! i)) ''|||'') \<and>
        snd ((p # ps) ! i) = m' \<and> m < m' \<and> (\<forall>j<i. snd ((p # ps) ! j) < m')"
    proof
      assume "b' = Some (split k ''|||'') \<and> m' = c"
      with True p show ?thesis by (intro exI[of _ 0]) simp
    next
      assume "\<exists>i<length ps. b' = Some (split (fst (ps ! i)) ''|||'') \<and> snd (ps ! i) = m' \<and>
          c < m' \<and> (\<forall>j<i. snd (ps ! j) < m')"
      then obtain i where i: "i < length ps" "b' = Some (split (fst (ps ! i)) ''|||'')"
        "snd (ps ! i) = m'" "c < m'" "\<forall>j<i. snd (ps ! j) < m'" by blast
      have "\<forall>j<Suc i. snd ((p # ps) ! j) < m'"
      proof (intro allI impI)
        fix j assume "j < Suc i"
        then show "snd ((p # ps) ! j) < m'" using i p by (cases j) auto
      qed
      with i True show ?thesis by (intro exI[of _ "Suc i"]) auto
    qed
    with all le True p show ?thesis by auto
  next
    case False
    with Cons.prems p have f: "foldl bestPairStep (b, m) ps = (b', m')" by simp
    from Cons.IH[OF f] have all: "\<forall>q\<in>set ps. snd q \<le> m'" and le: "m \<le> m'"
      and dis: "(b' = b \<and> m' = m) \<or>
        (\<exists>i<length ps. b' = Some (split (fst (ps ! i)) ''|||'') \<and> snd (ps ! i) = m' \<and>
          m < m' \<and> (\<forall>j<i. snd (ps ! j) < m'))" by auto
    from dis have "(b' = b \<and> m' = m) \<or> (\<exists>i<length (p # ps). b' = Some (split (fst ((p # ps) ! i)) ''|||'') \<and>
        snd ((p # ps) ! i) = m' \<and> m < m' \<and> (\<forall>j<i. snd ((p # ps) ! j) < m'))"
    proof
      assume "b' = b \<and> m' = m" then show ?thesis by simp
    next
      assume "\<exists>i<length ps. b' = Some (split (fst (ps ! i)) ''|||'') \<and> snd (ps ! i) = m' \<and>
          m < m' \<and> (\<forall>j<i. snd (ps ! j) < m')"
      then obtain i where i: "i < length ps" "b' = Some (split (fst (ps ! i)) ''|||'')"
        "snd (ps ! i) = m'" "m < m'" "\<forall>j<i. snd (ps ! j) < m'" by blast
      have "\<forall>j<Suc i. snd ((p # ps) ! j) < m'"
      proof (intro allI impI)
        fix j assume "j < Suc i"
        then show "snd ((p # ps) ! j) < m'" using i p False by (cases j) auto
      qed
      with i show ?thesis by (intro disjI2 exI[of _ "Suc i"]) auto
    qed
    with all le False p show ?thesis by auto
  qed
qed


lemma getBestPair_Some_index:
  assumes "getBestPair pairs = Some bestPair"
  shows "\<exists>i<length pairs. bestPair = split (fst (pairs ! i)) ''|||'' \<and>
           (\<forall>j<length pairs. snd (pairs ! j) \<le> snd (pairs ! i)) \<and>
           (\<forall>j<i. snd (pairs ! j) < snd (pairs ! i))"
proof -
  obtain b' m' where f: "foldl bestPairStep (None, 0) pairs = (b', m')"
    by (cases "foldl bestPairStep (None, 0) pairs")
  with assms have b': "b' = Some bestPair" by (simp add: getBestPair_def split: if_splits)
  from foldl_bestPairStep[OF f] b'
  obtain i where i: "i < length pairs" "b' = Some (split (fst (pairs ! i)) ''|||'')"
      "snd (pairs ! i) = m'" "\<forall>j<i. snd (pairs ! j) < m'"
    and all: "\<forall>p\<in>set pairs. snd p \<le> m'" by auto
  from all have "\<forall>j<length pairs. snd (pairs ! j) \<le> m'" by simp
  with i b' show ?thesis by auto
qed

lemma getBestPair_positive:
  assumes "pairs \<noteq> []" and "\<And>k n. (k, n) \<in> set pairs \<Longrightarrow> 0 < n"
  shows "\<exists>bestPair. getBestPair pairs = Some bestPair"
proof -
  obtain b' m' where f: "foldl bestPairStep (None, 0) pairs = (b', m')"
    by (cases "foldl bestPairStep (None, 0) pairs")
  from assms obtain k n where kn: "(k, n) \<in> set pairs" "0 < n" by (cases pairs) auto
  from foldl_bestPairStep[OF f] kn have "0 < m'" by force
  with foldl_bestPairStep[OF f] obtain i where "b' = Some (split (fst (pairs ! i)) ''|||'')" by auto
  with f assms(1) show ?thesis by (simp add: getBestPair_def)
qed

lemma getBestPair_getPairs_Some:
  assumes "getPairs words \<noteq> []"
  shows "\<exists>bestPair. getBestPair (getPairs words) = Some bestPair"
  using assms counts_getPairs by (rule getBestPair_positive)

lemma getBestPair_getPairs_two:
  assumes "getBestPair (getPairs words) = Some bestPair"
  shows "\<exists>f s. bestPair = [f, s] \<and> length (f @ s) = 2"
proof -
  from getBestPair_Some_index[OF assms] obtain i where
    i: "i < length (getPairs words)" "bestPair = split (fst (getPairs words ! i)) ''|||''" by blast
  from i(1) have "getPairs words ! i \<in> set (getPairs words)" by simp
  then have "isPairKey (fst (getPairs words ! i))"
    using isPairKey_getPairs[of "fst (getPairs words ! i)" "snd (getPairs words ! i)" words] by simp
  from split_isPairKey[OF this] i(2) show ?thesis by simp
qed

lemma mergePair_two: "mergePair words (f # s # others) = Inr (map (mergeWord f s) words)"
  by (cases words) simp_all

subsection \<open>Unfolding the training loop\<close>

lemma trainLoop_exit:
  assumes "\<not> int i < min 2000 (n - int (length (vocab t)))"
  shows "trainLoop n i words t = Inr t"
  by (subst trainLoop.simps) (simp only: assms if_False)

lemma trainLoop_noPairs:
  assumes "getPairs words = []"
  shows "trainLoop n i words t = Inr t"
  by (subst trainLoop.simps) (simp only: assms Let_def list.size if_True if_cancel refl)

lemma trainLoop_round:
  assumes "int i < min 2000 (n - int (length (vocab t)))"
    and "getBestPair (getPairs words) = Some [f, s]"
  shows "trainLoop n i words t =
           trainLoop n (Suc i) (map (mergeWord f s) words) (recordMerge t [f, s] (f @ s))"
proof -
  from assms(2) have "getPairs words \<noteq> []" by (auto simp: getBestPair_def)
  with assms(2) have "(let pairs = getPairs words in
         if length pairs = 0 then Inr t
         else case getBestPair pairs of
           None \<Rightarrow> Inr t
         | Some bestPair \<Rightarrow>
             (case mergePair words bestPair of
                Inl e \<Rightarrow> Inl e
              | Inr words' \<Rightarrow>
                  (case pairToken bestPair of
                     Inl e \<Rightarrow> Inl e
                   | Inr newToken \<Rightarrow>
                       (let tokenId = length (vocab t)
                        in trainLoop n (Suc i) words'
                             (t\<lparr>merges := merges t @ [bestPair],
                                vocab := AList.update newToken tokenId (vocab t),
                                decoder := AList.update tokenId newToken (decoder t)\<rparr>))))) =
       trainLoop n (Suc i) (map (mergeWord f s) words) (recordMerge t [f, s] (f @ s))"
    by (simp add: mergePair_two Let_def)
  then show ?thesis
    by (subst trainLoop.simps) (simp only: assms(1) if_True)
qed

text \<open>An invariant of the loop holds of the state it returns, and the loop returns one.\<close>

lemma trainLoop_invariant:
  assumes init: "P t"
    and step: "\<And>i words t f s. P t \<Longrightarrow> int i < min 2000 (n - int (length (vocab t))) \<Longrightarrow>
        getBestPair (getPairs words) = Some [f, s] \<Longrightarrow> length (f @ s) = 2 \<Longrightarrow>
        P (recordMerge t [f, s] (f @ s))"
  shows "\<exists>t'. trainLoop n i words t = Inr t' \<and> P t'"
  using init
proof (induction "2000 - i" arbitrary: i words t rule: less_induct)
  case less
  show ?case
  proof (cases "int i < min 2000 (n - int (length (vocab t)))")
    case False
    with less.prems show ?thesis by (simp add: trainLoop_exit)
  next
    case cond: True
    show ?thesis
    proof (cases "getPairs words = []")
      case True
      with less.prems show ?thesis by (simp add: trainLoop_noPairs)
    next
      case False
      from getBestPair_getPairs_Some[OF False] obtain bestPair
        where b: "getBestPair (getPairs words) = Some bestPair" by blast
      from getBestPair_getPairs_two[OF b] obtain f s
        where fs: "bestPair = [f, s]" "length (f @ s) = 2" by blast
      from cond have "i < 2000" by simp
      then have "2000 - Suc i < 2000 - i" by arith
      moreover have "P (recordMerge t [f, s] (f @ s))"
        using step[OF less.prems cond] b fs by blast
      ultimately have "\<exists>t'. trainLoop n (Suc i) (map (mergeWord f s) words)
          (recordMerge t [f, s] (f @ s)) = Inr t' \<and> P t'"
        by (rule less.hyps)
      with trainLoop_round[OF cond] b fs show ?thesis by simp
    qed
  qed
qed

lemma length_update_le: "length (AList.update k v al) \<le> Suc (length al)"
  by (simp add: length_update)

lemma trainFromText_string:
  "trainFromText t (JString text) n =
     trainLoop n 0
       (filter (\<lambda>word. length (trim word) > 0) (split (collapseSpaces text) '' ''))
       (seedAlphabet t 0 (newSet (text @ seedChars)))"
  by (simp add: trainFromText_def)

lemma merges_seedAlphabet: "merges (seedAlphabet t idx cs) = merges t"
  by (induction t idx cs rule: seedAlphabet.induct) (simp_all add: Let_def)

subsection \<open>The table of pair counts\<close>

lemma keys_order_countPair: "map fst (countPair pairs k) = setAdd (map fst pairs) k"
  by (simp add: countPair_def update_keys)

lemma keys_order_foldl_countPair:
  "map fst (foldl countPair pairs ks) = foldl setAdd (map fst pairs) ks"
  by (induction ks arbitrary: pairs) (simp_all add: keys_order_countPair del: setAdd.simps)

lemma getPairs_keys_order:
  "map fst (getPairs words) = newSet (concat (map adjacentKeys words))"
  by (simp add: getPairs_adjacentKeys keys_order_foldl_countPair newSet_def)

lemma distinct_foldl_setAdd: "distinct seen \<Longrightarrow> distinct (foldl setAdd seen xs)"
  by (induction xs arbitrary: seen) auto

lemma set_foldl_setAdd: "set (foldl setAdd seen xs) = set seen \<union> set xs"
  by (induction xs arbitrary: seen) auto

lemma distinct_newSet: "distinct (newSet xs)"
  by (simp add: newSet_def distinct_foldl_setAdd)

lemma set_newSet: "set (newSet xs) = set xs"
  by (simp add: newSet_def set_foldl_setAdd)

lemma map_of_countPair:
  "map_of (countPair pairs k) k' =
     (if k' = k then Some ((case map_of pairs k of None \<Rightarrow> 0 | Some n \<Rightarrow> n) + 1) else map_of pairs k')"
  by (simp add: countPair_def update_conv')

lemma map_of_foldl_countPair:
  "map_of (foldl countPair pairs ks) k =
     (if k \<in> set ks then Some ((case map_of pairs k of None \<Rightarrow> 0 | Some n \<Rightarrow> n) + count_list ks k)
      else map_of pairs k)"
  by (induction ks arbitrary: pairs) (auto simp: map_of_countPair)

lemma getPairs_counts:
  assumes "(k, n) \<in> set (getPairs words)"
  shows "n = count_list (concat (map adjacentKeys words)) k"
proof -
  have "distinct (map fst (getPairs words))" by (simp add: getPairs_keys_order distinct_newSet)
  with assms have "map_of (getPairs words) k = Some n" by simp
  then show ?thesis
    by (simp add: getPairs_adjacentKeys map_of_foldl_countPair split: if_splits)
qed

subsection \<open>Seeding and construction\<close>

lemma vocab_keys_seedAlphabet:
  "fst ` set (vocab (seedAlphabet t idx cs)) = fst ` set (vocab t) \<union> (\<lambda>c. [c]) ` set cs"
  by (induction t idx cs rule: seedAlphabet.induct) (auto simp: Let_def dom_update)

lemma vocab_distinct_seedAlphabet:
  "distinct (map fst (vocab t)) \<Longrightarrow> distinct (map fst (vocab (seedAlphabet t idx cs)))"
  by (induction t idx cs rule: seedAlphabet.induct) (simp_all add: Let_def distinct_update)

lemma newTokenizer_value:
  "newTokenizer =
     \<lparr>vocab = [], merges = [],
      specialTokens = [(''<|endoftext|>'', 0), (''<|startoftext|>'', 1), (''<|unknown|>'', 2),
                       (''<|space|>'', 3)],
      decoder = [(0, ''<|endoftext|>''), (1, ''<|startoftext|>''), (2, ''<|unknown|>''),
                 (3, ''<|space|>'')]\<rparr>"
  by (simp add: newTokenizer_def initializeSpecialTokens_def specials_def)

subsection \<open>The merge step\<close>

text \<open>
  The pattern that \<open>mergePair\<close> builds matches the text \<open>first + second\<close>, and the
  replacement is the same text: unless it holds a dollar sign, no word changes.
\<close>

lemma regExpText_escapeRegExp_append:
  "regExpText (escapeRegExp x @ regExpSource) = x @ regExpText regExpSource"
proof (induction x)
  case Nil
  then show ?case by simp
next
  case (Cons c cs)
  show ?case
  proof (cases "regExpSpecial c")
    case True
    with Cons show ?thesis by simp
  next
    case False
    then have c: "c \<noteq> CHR 0x5C" by (auto simp: regExpSpecial_def)
    show ?thesis
    proof (cases "escapeRegExp cs @ regExpSource")
      case Nil
      with False Cons show ?thesis by simp
    next
      case (Cons d rest)
      with False c Cons.IH show ?thesis by simp
    qed
  qed
qed

lemma regExpText_escapeRegExp:
  "regExpText (escapeRegExp first @ escapeRegExp second) = first @ second"
  using regExpText_escapeRegExp_append[of first "escapeRegExp second"]
    regExpText_escapeRegExp_append[of second "[]"] by simp

lemma mergeWord_replaceAll:
  "mergeWord first second word = replaceAllFrom (first @ second) (first @ second) [] word"
  by (simp add: mergeWord_def regExpText_escapeRegExp)

lemma getSubstitution_plain:
  "CHR 0x24 \<notin> set replacement \<Longrightarrow> getSubstitution matched preceding following replacement = replacement"
  by (induction matched preceding following replacement rule: getSubstitution.induct) auto

lemma replaceAllFrom_same_aux:
  "pat \<noteq> [] \<Longrightarrow> replacement = pat \<Longrightarrow> CHR 0x24 \<notin> set pat \<Longrightarrow>
     replaceAllFrom pat replacement preceding word = word"
proof (induction pat replacement preceding word rule: replaceAllFrom.induct)
  case (1 pat replacement preceding)
  then show ?case by simp
next
  case (2 pat replacement preceding c cs)
  show ?case
  proof (cases "take (length pat) (c # cs) = pat")
    case True
    with 2 have "replaceAllFrom pat replacement (preceding @ pat) (drop (length pat) (c # cs))
        = drop (length pat) (c # cs)" by simp
    with True 2(4,5,6) have "replaceAllFrom pat replacement preceding (c # cs)
        = take (length pat) (c # cs) @ drop (length pat) (c # cs)"
      by (simp add: getSubstitution_plain)
    then show ?thesis by (simp only: append_take_drop_id)
  next
    case False
    with 2 show ?thesis by simp
  qed
qed

lemma replaceAllFrom_same:
  "pat \<noteq> [] \<Longrightarrow> CHR 0x24 \<notin> set pat \<Longrightarrow> replaceAllFrom pat pat preceding word = word"
  by (rule replaceAllFrom_same_aux) simp_all

lemma mergePair_unchanged:
  assumes "first @ second \<noteq> []" and "CHR 0x24 \<notin> set (first @ second)"
  shows "mergePair words [first, second] = Inr words"
proof -
  have "map (mergeWord first second) words = words"
    using assms by (simp add: mergeWord_replaceAll replaceAllFrom_same map_idI)
  then show ?thesis by (simp add: mergePair_two)
qed

section \<open>The claims\<close>

subsection \<open>A training run used as example\<close>

text \<open>
  A new tokenizer trained on \<open>ab ab ab ac\<close> with target size 21: twenty characters
  are seeded with the ids 4 to 23, and the one merge that follows gives the token \<open>ab\<close>
  the id 20, the size of the vocabulary, which is the id of \<open>[\<close>.
\<close>

lemma trained_example:
  "trainFromText newTokenizer (JString ''ab ab ab ac'') 21 =
     Inr \<lparr>vocab =
        [(''a'', 4), (''b'', 5), ('' '', 6), (''c'', 7), ([CHR 0x0A], 8),
         ([CHR 0x09], 9), (''!'', 10), (''@'', 11), (''#'', 12),
         (''$'', 13), (''%'', 14), (''^'', 15), (''&'', 16), (''*'', 17),
         (''('', 18), ('')'', 19), (''['', 20), ('']'', 21), (''{'', 22),
         (''}'', 23), (''ab'', 20)],
        merges = [[''a'', ''b'']],
        specialTokens =
          [(''<|endoftext|>'', 0), (''<|startoftext|>'', 1),
           (''<|unknown|>'', 2), (''<|space|>'', 3)],
        decoder =
          [(0, ''<|endoftext|>''), (1, ''<|startoftext|>''),
           (2, ''<|unknown|>''), (3, ''<|space|>''), (4, ''a''), (5, ''b''),
           (6, '' ''), (7, ''c''), (8, [CHR 0x0A]), (9, [CHR 0x09]), (10, ''!''),
           (11, ''@''), (12, ''#''), (13, ''$''), (14, ''%''), (15, ''^''),
           (16, ''&''), (17, ''*''), (18, ''(''), (19, '')''), (20, ''ab''),
           (21, '']''), (22, ''{''), (23, ''}'')]\<rparr>"
  by code_simp

subsection \<open>C1: round trip\<close>

text \<open>
  Claim C1 (decoding the encoding of a text over the trained alphabet gives the text
  back) does not hold of the code: after the training run above, the character \<open>[\<close> is
  in the vocabulary with id 20, and decoding its encoding gives \<open>ab\<close>.
\<close>

theorem roundtrip_lost_after_merge:
  "\<exists>t. trainFromText newTokenizer (JString ''ab ab ab ac'') 21 = Inr t \<and>
     map_of (vocab t) ''['' = Some 20 \<and> encode t ''['' = [20] \<and>
     decode t (encode t ''['') = ''ab''"
  unfolding trained_example
  by (simp add: encode_def encodeChar_def orNat_def decode_def orString_def)

subsection \<open>C2: monotonic ids\<close>

text \<open>
  Claim C2 (each new id is greater than every id assigned before, and no id is assigned
  twice) does not hold of the code: in the training run above the last five entries of
  the vocabulary, in the order they were added, are \<open>[\<close> with id 20 up to \<open>}\<close> with id
  23 and then the merged token \<open>ab\<close> with id 20 again.
\<close>

theorem merge_id_reuses_character_id:
  "\<exists>t. trainFromText newTokenizer (JString ''ab ab ab ac'') 21 = Inr t \<and>
     drop 16 (vocab t) = [(''['', 20), ('']'', 21), (''{'', 22), (''}'', 23), (''ab'', 20)]"
  unfolding trained_example by simp

subsection \<open>C3: the decoder as inverse of the vocabulary\<close>

text \<open>
  Claim C3 (the decoder is the exact inverse of the vocabulary and the special tokens)
  does not hold of the code after a merge: in the training run above the vocabulary maps
  both \<open>[\<close> and \<open>ab\<close> to the id 20, which the decoder maps to \<open>ab\<close>.
\<close>

theorem decoder_not_inverse_after_merge:
  "\<exists>t. trainFromText newTokenizer (JString ''ab ab ab ac'') 21 = Inr t \<and>
     map_of (vocab t) ''['' = Some 20 \<and> map_of (vocab t) ''ab'' = Some 20 \<and>
     map_of (decoder t) 20 = Some ''ab''"
  unfolding trained_example by simp

subsection \<open>C4: the merge step\<close>

text \<open>
  Claim C4 (after a merge the merged pair counts as one symbol in the later pair counts)
  does not hold of the code: the words are strings, merging \<open>(a, b)\<close> replaces the text
  \<open>ab\<close> by itself, and the next count splits every word into characters again, so that
  with room for two merges the same pair is merged twice. Where the replacement does
  change a word it does not put the concatenation there: merging \<open>($, $)\<close> turns the
  word \<open>$$\<close> into \<open>$\<close>.
\<close>

theorem merge_leaves_pair_counts:
  "mergePair [''ab'', ''ab'', ''ab'', ''ac''] [''a'', ''b''] = Inr [''ab'', ''ab'', ''ab'', ''ac''] \<and>
   getPairs [''ab'', ''ab'', ''ab'', ''ac''] = [(''a|||b'', 3), (''a|||c'', 1)] \<and>
   \<not> isl (trainFromText newTokenizer (JString ''ab ab ab ac'') 23) \<and>
   merges (projr (trainFromText newTokenizer (JString ''ab ab ab ac'') 23)) =
     [[''a'', ''b''], [''a'', ''b'']] \<and>
   mergePair [''$$''] [''$'', ''$''] = Inr [''$'']"
  by code_simp

subsection \<open>C5: number of merge rules\<close>

text \<open>
  Claim C5 (the number of merge rules equals the final vocabulary size minus the size of
  the seeded alphabet minus the number of special tokens, the special tokens being
  counted in the final size) does not hold of the code: a new tokenizer trained on
  \<open>ab ab ab ac\<close> with target size 23 seeds 20 characters and records the merge rule
  \<open>(a, b)\<close> twice, while the vocabulary gains the one entry \<open>ab\<close>; with the 4 special
  tokens the final size is 25, and \<open>25 - 20 - 4\<close> is 1, not 2.
\<close>

theorem merge_rule_repeated_count:
  "\<not> isl (trainFromText newTokenizer (JString ''ab ab ab ac'') 23) \<and>
   merges (projr (trainFromText newTokenizer (JString ''ab ab ab ac'') 23)) =
     [[''a'', ''b''], [''a'', ''b'']] \<and>
   getVocabSize (projr (trainFromText newTokenizer (JString ''ab ab ab ac'') 23)) = 21 \<and>
   length (specialTokens (projr (trainFromText newTokenizer (JString ''ab ab ab ac'') 23))) = 4 \<and>
   length (newSet (''ab ab ab ac'' @ seedChars)) = 20 \<and>
   int (length (merges (projr (trainFromText newTokenizer (JString ''ab ab ab ac'') 23)))) \<noteq>
     int (getVocabSize (projr (trainFromText newTokenizer (JString ''ab ab ab ac'') 23))
          + length (specialTokens (projr (trainFromText newTokenizer (JString ''ab ab ab ac'') 23))))
       - int (length (newSet (''ab ab ab ac'' @ seedChars)))
       - int (length (specialTokens (projr (trainFromText newTokenizer (JString ''ab ab ab ac'') 23))))"
  by code_simp

subsection \<open>C6: which pair is merged\<close>

text \<open>
  Claim C6, amended: when the table of pair counts is not empty, \<open>getBestPair\<close> returns
  a pair of maximal count, and among the pairs of maximal count the one first entered in
  the table, that is the one met first when the words are read left to right (not the
  lexicographically smallest). The table lists the adjacent character pairs of the words
  in order of first occurrence, each with its number of occurrences.
\<close>

theorem best_pair_first_maximal:
  assumes "getPairs words \<noteq> []"
  shows "map fst (getPairs words) = newSet (concat (map adjacentKeys words)) \<and>
         map snd (getPairs words) =
           map (count_list (concat (map adjacentKeys words))) (map fst (getPairs words)) \<and>
         (\<exists>i<length (getPairs words).
            getBestPair (getPairs words) = Some (split (fst (getPairs words ! i)) ''|||'') \<and>
            (\<forall>j<length (getPairs words). snd (getPairs words ! j) \<le> snd (getPairs words ! i)) \<and>
            (\<forall>j<i. snd (getPairs words ! j) < snd (getPairs words ! i)))"
proof (intro conjI)
  show "map fst (getPairs words) = newSet (concat (map adjacentKeys words))"
    by (rule getPairs_keys_order)
  show "map snd (getPairs words) =
           map (count_list (concat (map adjacentKeys words))) (map fst (getPairs words))"
    using getPairs_counts[of _ _ words] by (auto simp: list_eq_iff_nth_eq) 
  from getBestPair_getPairs_Some[OF assms] obtain bestPair
    where b: "getBestPair (getPairs words) = Some bestPair" by blast
  from getBestPair_Some_index[OF b] b
  show "\<exists>i<length (getPairs words).
            getBestPair (getPairs words) = Some (split (fst (getPairs words ! i)) ''|||'') \<and>
            (\<forall>j<length (getPairs words). snd (getPairs words ! j) \<le> snd (getPairs words ! i)) \<and>
            (\<forall>j<i. snd (getPairs words ! j) < snd (getPairs words ! i))" by auto
qed

theorem best_pair_first_maximal_witness:
  "getPairs [''ba'', ''ab'', ''ac'', ''ac''] \<noteq> [] \<and>
   (\<exists>i<length (getPairs [''ba'', ''ab'', ''ac'', ''ac'']).
      getBestPair (getPairs [''ba'', ''ab'', ''ac'', ''ac'']) =
        Some (split (fst (getPairs [''ba'', ''ab'', ''ac'', ''ac''] ! i)) ''|||'') \<and>
      (\<forall>j<length (getPairs [''ba'', ''ab'', ''ac'', ''ac'']).
         snd (getPairs [''ba'', ''ab'', ''ac'', ''ac''] ! j)
           \<le> snd (getPairs [''ba'', ''ab'', ''ac'', ''ac''] ! i)) \<and>
      (\<forall>j<i. snd (getPairs [''ba'', ''ab'', ''ac'', ''ac''] ! j)
           < snd (getPairs [''ba'', ''ab'', ''ac'', ''ac''] ! i)))"
proof -
  have h: "getPairs [''ba'', ''ab'', ''ac'', ''ac''] \<noteq> []" by code_simp
  from best_pair_first_maximal[OF h] h show ?thesis by blast
qed

text \<open>
  Claim C6 as stated fails: for the words \<open>ba\<close> and \<open>ab\<close> both pairs occur once, and
  the pair chosen is \<open>(b, a)\<close>, although \<open>(a, b)\<close> is lexicographically smaller.
\<close>

theorem tie_break_counterexample:
  "getPairs [''ba'', ''ab''] = [(''b|||a'', 1), (''a|||b'', 1)] \<and>
   getBestPair (getPairs [''ba'', ''ab'']) = Some [''b'', ''a''] \<and>
   (''a'', ''b'') < (''b'', ''a'')"
  by code_simp

subsection \<open>C7: bounded growth\<close>

text \<open>
  Claim C7, amended: when \<open>trainFromText(corpus, targetVocabSize)\<close> completes, the
  vocabulary size is at most the larger of \<open>targetVocabSize\<close> and the vocabulary size
  right after seeding the alphabet; the alphabet is seeded whatever the target is.
\<close>

theorem vocab_size_bounded:
  assumes "trainFromText t (JString corpus) targetVocabSize = Inr t'"
  shows "int (getVocabSize t') \<le>
           max targetVocabSize (int (getVocabSize (seedAlphabet t 0 (newSet (corpus @ seedChars)))))"
proof -
  define t1 where "t1 = seedAlphabet t 0 (newSet (corpus @ seedChars))"
  define P where "P u = (int (length (vocab u)) \<le> max targetVocabSize (int (length (vocab t1))))" for u :: tokenizer
  have "P t1" by (simp add: P_def)
  moreover have "P (recordMerge u [f, s] (f @ s))"
    if "P u" and "int i < min 2000 (targetVocabSize - int (length (vocab u)))" for u i f s
  proof -
    from that(2) have "int (length (vocab u)) < targetVocabSize" by simp
    moreover have "length (AList.update (f @ s) (length (vocab u)) (vocab u)) \<le> Suc (length (vocab u))"
      by (rule length_update_le)
    ultimately show ?thesis by (simp add: P_def)
  qed
  ultimately have "\<exists>u. trainLoop targetVocabSize 0
       (filter (\<lambda>word. length (trim word) > 0) (split (collapseSpaces corpus) '' '')) t1 = Inr u \<and> P u"
    by (rule trainLoop_invariant)
  with assms show ?thesis by (auto simp: trainFromText_string t1_def P_def getVocabSize_def)
qed

theorem vocab_size_bounded_witness:
  "trainFromText newTokenizer (JString ''ab'') 20 = Inr (projr (trainFromText newTokenizer (JString ''ab'') 20)) \<and>
   int (getVocabSize (projr (trainFromText newTokenizer (JString ''ab'') 20))) \<le>
      max 20 (int (getVocabSize (seedAlphabet newTokenizer 0 (newSet (''ab'' @ seedChars)))))"
proof -
  have h: "trainFromText newTokenizer (JString ''ab'') 20 =
      Inr (projr (trainFromText newTokenizer (JString ''ab'') 20))" by code_simp
  from vocab_size_bounded[OF h] h show ?thesis by blast
qed

text \<open>
  Claim C7 as stated fails: training a new tokenizer on the empty corpus with target size
  5 leaves the 17 seeded characters in the vocabulary.
\<close>

theorem vocab_size_counterexample:
  "\<not> isl (trainFromText newTokenizer (JString '''') 5) \<and>
   \<not> int (getVocabSize (projr (trainFromText newTokenizer (JString '''') 5))) \<le> 5"
  by code_simp

subsection \<open>C8: exceptions of trainFromText\<close>




subsection \<open>C10: the vocabulary size and the special tokens\<close>

text \<open>
  Claim C10: \<open>getVocabSize\<close> counts the alphabet and merge entries and never the four
  special tokens. On a new tokenizer it is 0 although \<open>getTokenText\<close> and \<open>decode\<close>
  resolve the ids 0 to 3 to the special tokens; after training a new tokenizer it is the
  number of distinct one-character strings of the corpus and the seed characters and of
  concatenated merge rules, none of which is a special token.
\<close>

theorem vocab_size_excludes_specials:
  "getVocabSize newTokenizer = 0 \<and>
   map (getTokenText newTokenizer) [0, 1, 2, 3] = specials \<and>
   decode newTokenizer [0, 1, 2, 3] = concat specials \<and>
   (trainFromText newTokenizer (JString corpus) targetVocabSize = Inr t' \<longrightarrow>
      fst ` set (vocab t') = (\<lambda>c. [c]) ` set (corpus @ seedChars) \<union> concat ` set (merges t') \<and>
      getVocabSize t' = card ((\<lambda>c. [c]) ` set (corpus @ seedChars) \<union> concat ` set (merges t')) \<and>
      fst ` set (vocab t') \<inter> set specials = {})"
proof (intro conjI impI)
  show "getVocabSize newTokenizer = 0" by (simp add: newTokenizer_value getVocabSize_def)
  show "map (getTokenText newTokenizer) [0, 1, 2, 3] = specials"
    by (simp add: newTokenizer_value getTokenText_def orString_def specials_def)
  show "decode newTokenizer [0, 1, 2, 3] = concat specials"
    by (simp add: newTokenizer_value decode_def orString_def specials_def)
next
  assume tr: "trainFromText newTokenizer (JString corpus) targetVocabSize = Inr t'"
  define A where "A = (\<lambda>c. [c]) ` set (corpus @ seedChars)"
  define t1 where "t1 = seedAlphabet newTokenizer 0 (newSet (corpus @ seedChars))"
  define P where "P u = (fst ` set (vocab u) = A \<union> concat ` set (merges u) \<and>
      distinct (map fst (vocab u)) \<and> (\<forall>p \<in> set (merges u). length (concat p) = 2))"
    for u :: tokenizer
  have "P t1"
    by (simp add: P_def t1_def A_def vocab_keys_seedAlphabet vocab_distinct_seedAlphabet
        merges_seedAlphabet set_newSet newTokenizer_value)
  moreover have "P (recordMerge u [f, s] (f @ s))" if "P u" and "length (f @ s) = 2" for u f s
    using that by (auto simp: P_def dom_update distinct_update)
  ultimately have "\<exists>u. trainLoop targetVocabSize 0
       (filter (\<lambda>word. length (trim word) > 0) (split (collapseSpaces corpus) '' '')) t1 = Inr u \<and> P u"
    by (rule trainLoop_invariant)
  with tr have P: "P t'" by (auto simp: trainFromText_string t1_def)
  then show keys: "fst ` set (vocab t') = (\<lambda>c. [c]) ` set (corpus @ seedChars) \<union> concat ` set (merges t')"
    by (simp add: P_def A_def)
  from P have "distinct (map fst (vocab t'))" by (simp add: P_def)
  then have "card (set (map fst (vocab t'))) = length (map fst (vocab t'))" by (rule distinct_card)
  with keys show "getVocabSize t' = card ((\<lambda>c. [c]) ` set (corpus @ seedChars) \<union> concat ` set (merges t'))"
    by (simp add: getVocabSize_def)
  have "length k \<le> 2" if "k \<in> fst ` set (vocab t')" for k
    using that P unfolding P_def A_def by auto
  moreover have "2 < length k" if "k \<in> set specials" for k
    using that by (auto simp: specials_def)
  ultimately show "fst ` set (vocab t') \<inter> set specials = {}" by fastforce
qed

theorem vocab_size_excludes_specials_witness:
  "trainFromText newTokenizer (JString ''ab'') 20 =
      Inr (projr (trainFromText newTokenizer (JString ''ab'') 20)) \<and>
   getVocabSize newTokenizer = 0 \<and>
   map (getTokenText newTokenizer) [0, 1, 2, 3] = specials \<and>
   decode newTokenizer [0, 1, 2, 3] = concat specials \<and>
   fst ` set (vocab (projr (trainFromText newTokenizer (JString ''ab'') 20))) \<inter> set specials = {} \<and>
   getVocabSize (projr (trainFromText newTokenizer (JString ''ab'') 20)) = 20"
proof -
  have h: "trainFromText newTokenizer (JString ''ab'') 20 =
      Inr (projr (trainFromText newTokenizer (JString ''ab'') 20))" by code_simp
  have v: "getVocabSize (projr (trainFromText newTokenizer (JString ''ab'') 20)) = 20" by code_simp
  from vocab_size_excludes_specials[of "''ab''" 20 "projr (trainFromText newTokenizer (JString ''ab'') 20)"] h v
  show ?thesis by blast
qed

end
